theory Spec2Isabelle
  imports Complex_Main "HOL-Library.Word"
begin

section \<open>Strings and numbers of the source language\<close>

text \<open>
  A TypeScript string is a sequence of UTF-16 code units; \<open>s.length\<close> counts code units
  and \<open>startsWith\<close> compares them. The three glyphs of \<open>buildContent\<close> lie outside the
  basic plane, so each of them is a surrogate pair.
\<close>

type_synonym ustring = "16 word list"

definition ascii :: "string \<Rightarrow> ustring" where
  "ascii s = map of_char s"

definition glyph_phonetic :: ustring where
  "glyph_phonetic = [0xD83D, 0xDD09]"

definition glyph_paraphrase :: ustring where
  "glyph_paraphrase = [0xD83D, 0xDCD5]"

definition glyph_explain :: ustring where
  "glyph_explain = [0xD83D, 0xDCDD]"

definition startsWith :: "ustring \<Rightarrow> ustring \<Rightarrow> bool" where
  "startsWith s p = (take (length p) s = p)"

text \<open>\<open>Array.prototype.join\<close>.\<close>

fun join :: "ustring \<Rightarrow> ustring list \<Rightarrow> ustring" where
  "join sep [] = []"
| "join sep [x] = x"
| "join sep (x # y # ys) = x @ sep @ join sep (y # ys)"

text \<open>\<open>String.prototype.repeat\<close> throws a \<open>RangeError\<close> on a negative count.\<close>

datatype error = RangeError

definition repeat :: "ustring \<Rightarrow> int \<Rightarrow> error + ustring" where
  "repeat s count =
     (if count < 0 then Inl RangeError else Inr (concat (replicate (nat count) s)))"

text \<open>The \<open>%\<close> operator: the remainder takes the sign of the dividend.\<close>

definition js_rem :: "int \<Rightarrow> int \<Rightarrow> int" where
  "js_rem a b = sgn a * (\<bar>a\<bar> mod \<bar>b\<bar>)"

text \<open>
  \<open>Math.round\<close> rounds to the nearest integer, a tie towards positive infinity. The code
  multiplies in IEEE doubles; the model multiplies on the reals. For an integer \<open>n\<close> the
  product \<open>0.6 * n\<close> is never within \<open>0.1\<close> of a tie, and every number within \<open>0.1\<close> of it
  rounds to the same integer (\<open>Math_round_tolerance\<close> below). For a viewport size
  \<open>0 \<le> n \<le> 1000000\<close> the double product lies within a billionth of \<open>0.6 * n\<close>, so
  there the model computes the number the code computes; for sizes of sixteen digits
  and more the two can differ by one.
  The statements about the value of a size taken from the viewport carry this bound.
\<close>

definition Math_round :: "real \<Rightarrow> int" where
  "Math_round x = \<lfloor>x + 1 / 2\<rfloor>"

text \<open>
  The running height of \<open>winSize\<close> is a number that is an integer or, after a division by
  a zero \<open>maxWidth\<close>, positive infinity (the dividend is at least 2, so the quotient is
  never NaN or negative infinity).
\<close>

datatype jsnum = Finite int | Infinity

fun num_add :: "jsnum \<Rightarrow> jsnum \<Rightarrow> jsnum" where
  "num_add (Finite a) (Finite b) = Finite (a + b)"
| "num_add _ _ = Infinity"

fun num_gt :: "jsnum \<Rightarrow> int \<Rightarrow> bool" where
  "num_gt (Finite a) m = (a > m)"
| "num_gt Infinity m = True"

text \<open>\<open>Math.floor(line_width / maxWidth)\<close> for a positive \<open>line_width\<close>.\<close>

definition floor_quot :: "int \<Rightarrow> int \<Rightarrow> jsnum" where
  "floor_quot line_width maxWidth =
     (if maxWidth = 0 then Infinity else Finite (line_width div maxWidth))"

section \<open>Data model\<close>

record EngineResult =
  engine :: ustring
  phonetic :: "ustring option"
  paraphrase :: "ustring option"
  explain :: "ustring list"

record Translation =
  trans_text :: ustring
  results :: "EngineResult list"

text \<open>An optional string in a condition: defined and not empty.\<close>

fun truthy :: "ustring option \<Rightarrow> bool" where
  "truthy None = False"
| "truthy (Some s) = (s \<noteq> [])"

text \<open>The window configuration (\<open>winConfig.get\<close>): cell counts, 0 for "take it from the viewport".\<close>

record winConfig =
  maxWidth :: int
  maxHeight :: int

text \<open>
  The host editor, as far as this class asks it: the options \<open>&columns\<close> and \<open>&lines\<close>,
  the function \<open>strdisplaywidth\<close>, and the two flags of \<open>workspace.env\<close>. A host request is
  taken to succeed.
\<close>

record host =
  eval_columns :: int
  eval_lines :: int
  strdisplaywidth :: "ustring \<Rightarrow> nat"
  floating :: bool
  textprop :: bool

text \<open>
  What the class does to the outside, in the order it does it: requests (\<open>nvim.eval\<close>,
  \<open>nvim.call\<close>), the notification batch (\<open>pauseNotification\<close>, the notified
  \<open>coc#util#preview_info\<close> call and commands, \<open>resumeNotification\<close>), and the calls of
  \<open>showMessage\<close> (\<open>../util\<close>) and \<open>FloatFactory\<close> (\<open>./window\<close>). The last two are imported by
  this class and lie outside it: a call of either is recorded as one event carrying its
  arguments (\<open>FloatCreate height width content filetype\<close> for the construction followed
  by \<open>create\<close>), and nothing is assumed about what it does.
\<close>

datatype host_call =
    Eval ustring
  | Call ustring ustring
  | PauseNotification
  | PreviewInfo "ustring list" ustring
  | Command ustring
  | ResumeNotification
  | FloatCreate jsnum int ustring ustring
  | ShowMessage ustring

section \<open>buildContent\<close>

definition engine_lines :: "EngineResult \<Rightarrow> ustring list" where
  "engine_lines t =
     [ascii '' '', ascii ''------ '' @ engine t @ ascii '' ------'']
     @ (if truthy (phonetic t)
        then [glyph_phonetic @ ascii '' ['' @ the (phonetic t) @ ascii '']''] else [])
     @ (if truthy (paraphrase t)
        then [glyph_paraphrase @ ascii '' '' @ the (paraphrase t)] else [])
     @ (if length (explain t) \<noteq> 0
        then map (\<lambda>i. glyph_explain @ ascii '' '' @ i) (explain t) else [])"

definition buildContent :: "Translation \<Rightarrow> ustring list" where
  "buildContent tr =
     [ascii ''@ '' @ trans_text tr @ ascii '' @'']
     @ concat (map engine_lines (results tr))"

section \<open>winSize\<close>

text \<open>\<open>Math.round(0.6 * parseInt(n.toString(), 10))\<close> for the number \<open>n\<close> the host answers.\<close>

definition viewport_share :: "int \<Rightarrow> int" where
  "viewport_share n = Math_round (0.6 * of_int n)"

definition resolve_maxWidth :: "winConfig \<Rightarrow> host \<Rightarrow> int \<times> host_call list" where
  "resolve_maxWidth cfg h =
     (if maxWidth cfg = 0
      then (viewport_share (eval_columns h), [Eval (ascii ''&columns'')])
      else (maxWidth cfg, []))"

definition resolve_maxHeight :: "winConfig \<Rightarrow> host \<Rightarrow> int \<times> host_call list" where
  "resolve_maxHeight cfg h =
     (if maxHeight cfg = 0
      then (viewport_share (eval_lines h), [Eval (ascii ''&lines'')])
      else (maxHeight cfg, []))"

text \<open>
  One turn of the loop over \<open>content\<close>: the state is \<open>(height, width)\<close>; the turn asks
  the host for the display width of its line.
\<close>

definition winSize_step :: "host \<Rightarrow> int \<Rightarrow> jsnum \<times> int \<Rightarrow> ustring \<Rightarrow> (jsnum \<times> int) \<times> host_call list" where
  "winSize_step h mw st line =
     (let calls = [Call (ascii ''strdisplaywidth'') line];
          line_width = int (strdisplaywidth h line) + 2
      in if line_width > mw
         then ((num_add (fst st) (num_add (floor_quot line_width mw) (Finite 1)), mw), calls)
         else ((num_add (fst st) (Finite 1), max line_width (snd st)), calls))"

fun winSize_loop :: "host \<Rightarrow> int \<Rightarrow> ustring list \<Rightarrow> jsnum \<times> int \<Rightarrow> (jsnum \<times> int) \<times> host_call list" where
  "winSize_loop h mw [] st = (st, [])"
| "winSize_loop h mw (line # rest) st =
     (case winSize_step h mw st line of
        (st', calls) \<Rightarrow>
          (case winSize_loop h mw rest st' of
             (st'', calls') \<Rightarrow> (st'', calls @ calls')))"

definition winSize :: "winConfig \<Rightarrow> host \<Rightarrow> ustring list \<Rightarrow> (jsnum \<times> int) \<times> host_call list" where
  "winSize cfg h content =
     (let (mw, calls_w) = resolve_maxWidth cfg h;
          (mh, calls_h) = resolve_maxHeight cfg h;
          ((height, width), calls) = winSize_loop h mw content (Finite 0, 0)
      in ((if num_gt height mh then Finite mh else height, width), calls_w @ calls_h @ calls))"

section \<open>popup\<close>

text \<open>The body of the centring loop for one line: the new line, or the error of \<open>repeat\<close>.\<close>

definition centre_line :: "int \<Rightarrow> ustring \<Rightarrow> error + ustring" where
  "centre_line width line =
     (if startsWith line (ascii ''---'') \<and> width > int (length line) then
        (let padding = (width - int (length line)) div 2 in
         case repeat (ascii ''-'') padding of
           Inl e \<Rightarrow> Inl e
         | Inr left \<Rightarrow>
            (case repeat (ascii ''-'') padding of
               Inl e \<Rightarrow> Inl e
             | Inr right \<Rightarrow>
                (case repeat (ascii ''-'') (js_rem (width - int (length line)) 2) of
                   Inl e \<Rightarrow> Inl e
                 | Inr extra \<Rightarrow> Inr ((left @ line @ right) @ extra))))
      else if startsWith line (ascii ''@'') then
        (let padding = (width - int (length line)) div 2 in
         case repeat (ascii '' '') padding of
           Inl e \<Rightarrow> Inl e
         | Inr left \<Rightarrow> Inr (left @ line))
      else Inr line)"

text \<open>
  The loop \<open>for (let i of Object.keys(content))\<close>: the indices are those of the array as
  it is when the loop starts, each turn reads and writes \<open>content[i]\<close> in place, and an
  error leaves the array as it is at that moment and ends the loop.
\<close>

definition centre_turn :: "int \<Rightarrow> nat \<Rightarrow> ustring list \<times> error option \<Rightarrow> ustring list \<times> error option" where
  "centre_turn width i st =
     (case snd st of
        Some e \<Rightarrow> st
      | None \<Rightarrow>
         (case centre_line width (fst st ! i) of
            Inl e \<Rightarrow> (fst st, Some e)
          | Inr line \<Rightarrow> ((fst st)[i := line], None)))"

definition centre_pass :: "int \<Rightarrow> ustring list \<Rightarrow> ustring list \<times> error option" where
  "centre_pass width content = fold (centre_turn width) [0..<length content] (content, None)"

definition render :: "host \<Rightarrow> jsnum \<Rightarrow> int \<Rightarrow> ustring list \<Rightarrow> host_call list" where
  "render h height width content =
     (if floating h \<or> textprop h
      then [FloatCreate height (width + 2) (join (ascii [CHR 0x0A]) content) (ascii ''translation'')]
      else [PauseNotification,
            PreviewInfo content (ascii ''translation''),
            Command (ascii ''redraw''),
            ResumeNotification])"

text \<open>
  \<open>popup\<close>: the outcome (\<open>Inl\<close> when the promise rejects), the \<open>content\<close> array as the call
  leaves it, and the host calls made. \<open>popup_lines\<close> is the body of \<open>popup\<close> after its
  first statement, as a function of the array \<open>buildContent\<close> returned.
\<close>

definition popup_lines :: "winConfig \<Rightarrow> host \<Rightarrow> ustring list \<Rightarrow> (error + unit) \<times> ustring list \<times> host_call list" where
  "popup_lines cfg h content =
     (if length content = 0 then (Inr (), content, [])
      else
        (let ((height, width), calls) = winSize cfg h content in
         case centre_pass width content of
           (content', Some e) \<Rightarrow> (Inl e, content', calls)
         | (content', None) \<Rightarrow> (Inr (), content', calls @ render h height width content')))"

definition popup :: "winConfig \<Rightarrow> host \<Rightarrow> Translation \<Rightarrow> (error + unit) \<times> ustring list \<times> host_call list" where
  "popup cfg h tr = (let content = buildContent tr in popup_lines cfg h content)"

section \<open>echo\<close>

text \<open>One turn of the loop: the state is the three flags and \<open>content\<close>.\<close>

definition echo_step :: "bool \<times> bool \<times> bool \<times> ustring list \<Rightarrow> EngineResult \<Rightarrow> bool \<times> bool \<times> bool \<times> ustring list" where
  "echo_step st t =
     (case st of (hasPhonetic, hasParaphrase, hasExplain, content) \<Rightarrow>
        let (hasPhonetic, content) =
              (if truthy (phonetic t) \<and> \<not> hasPhonetic
               then (True, content @ [ascii ''['' @ the (phonetic t) @ ascii '']''])
               else (hasPhonetic, content));
            (hasParaphrase, content) =
              (if truthy (paraphrase t) \<and> \<not> hasParaphrase
               then (True, content @ [the (paraphrase t)])
               else (hasParaphrase, content));
            (hasExplain, content) =
              (if length (explain t) \<noteq> 0 \<and> \<not> hasExplain
               then (True, content @ [join (ascii ''; '') (explain t)])
               else (hasExplain, content))
        in (hasPhonetic, hasParaphrase, hasExplain, content))"

definition echo_content :: "EngineResult list \<Rightarrow> ustring list" where
  "echo_content rs = snd (snd (snd (fold (\<lambda>t st. echo_step st t) rs (False, False, False, []))))"

definition echo_message :: "Translation \<Rightarrow> ustring" where
  "echo_message tr = trans_text tr @ ascii '' ==> '' @ join (ascii '' '') (echo_content (results tr))"

definition echo :: "Translation \<Rightarrow> host_call list" where
  "echo tr = [ShowMessage (echo_message tr)]"

section \<open>replace\<close>

fun replace_loop :: "EngineResult list \<Rightarrow> host_call list" where
  "replace_loop [] = [ShowMessage (ascii ''No paraphrase for replacement'')]"
| "replace_loop (t # rest) =
     (if truthy (paraphrase t)
      then [PauseNotification,
            Command (ascii ''let reg_tmp=@a''),
            Command (ascii ''let @a='' @ [0x27] @ the (paraphrase t) @ [0x27]),
            Command (ascii ''normal! viw\"ap''),
            Command (ascii ''let @a=reg_tmp''),
            ResumeNotification]
      else replace_loop rest)"

definition replace :: "Translation \<Rightarrow> host_call list" where
  "replace tr = replace_loop (results tr)"

section \<open>Auxiliary definitions for the statements\<close>

text \<open>
  The centring loop written by recursion on the lines: the lines before the failing one
  are centred, the failing line and those after it are left as they were.
  \<open>centre_pass_lines\<close> below shows that this is what the indexed loop computes.
\<close>

fun centre_lines :: "int \<Rightarrow> ustring list \<Rightarrow> ustring list \<times> error option" where
  "centre_lines width [] = ([], None)"
| "centre_lines width (line # rest) =
     (case centre_line width line of
        Inl e \<Rightarrow> (line # rest, Some e)
      | Inr line' \<Rightarrow> (case centre_lines width rest of (rest', r) \<Rightarrow> (line' # rest', r)))"

text \<open>
  What one engine adds to the message of \<open>echo\<close>, given which of the three fields an
  earlier engine has already supplied: its own fragments, phonetic, paraphrase, explain
  in this order.
\<close>

definition echo_fragments :: "bool \<Rightarrow> bool \<Rightarrow> bool \<Rightarrow> EngineResult \<Rightarrow> ustring list" where
  "echo_fragments seenPhonetic seenParaphrase seenExplain t =
     (if truthy (phonetic t) \<and> \<not> seenPhonetic
      then [ascii ''['' @ the (phonetic t) @ ascii '']''] else [])
     @ (if truthy (paraphrase t) \<and> \<not> seenParaphrase then [the (paraphrase t)] else [])
     @ (if explain t \<noteq> [] \<and> \<not> seenExplain then [join (ascii ''; '') (explain t)] else [])"

text \<open>The fragments of the engine at position \<open>i\<close>: a field counts only when no engine before position \<open>i\<close> has it.\<close>

definition echo_fragments_at :: "EngineResult list \<Rightarrow> nat \<Rightarrow> ustring list" where
  "echo_fragments_at rs i =
     echo_fragments
       (list_ex (\<lambda>t. truthy (phonetic t)) (take i rs))
       (list_ex (\<lambda>t. truthy (paraphrase t)) (take i rs))
       (list_ex (\<lambda>t. explain t \<noteq> []) (take i rs))
       (rs ! i)"

text \<open>The inputs of the examples.\<close>

definition host_ascii :: "bool \<Rightarrow> host" where
  "host_ascii float =
     \<lparr>eval_columns = 100, eval_lines = 40, strdisplaywidth = length,
      floating = float, textprop = False\<rparr>"

definition engine_of :: "string \<Rightarrow> ustring option \<Rightarrow> ustring option \<Rightarrow> ustring list \<Rightarrow> EngineResult" where
  "engine_of name ph pa ex = \<lparr>engine = ascii name, phonetic = ph, paraphrase = pa, explain = ex\<rparr>"

section \<open>Lemmas\<close>

subsection \<open>Strings and rounding\<close>

lemma ascii_Nil [simp]: "ascii [] = []"
  by (simp add: ascii_def)

lemma ascii_Cons [simp]: "ascii (c # cs) = of_char c # ascii cs"
  by (simp add: ascii_def)

lemma Math_round_06: "Math_round (0.6 * of_int c) = (6 * c + 5) div 10"
proof -
  have "(0.6 * real_of_int c + 1 / 2) = real_of_int (6 * c + 5) / real_of_int 10"
    by (simp add: field_simps)
  then have "\<lfloor>0.6 * real_of_int c + 1 / 2\<rfloor> = \<lfloor>real_of_int (6 * c + 5) / real_of_int 10\<rfloor>"
    by (simp only:)
  also have "\<dots> = (6 * c + 5) div 10"
    by (rule floor_divide_of_int_eq)
  finally show ?thesis by (simp add: Math_round_def)
qed

lemma viewport_share_eq: "viewport_share n = (6 * n + 5) div 10"
  by (simp only: viewport_share_def Math_round_06)

lemma viewport_share_round: "viewport_share n = round (0.6 * real_of_int n)"
  by (simp only: viewport_share_def Math_round_def round_def)

lemma Math_round_tolerance:
  assumes "\<bar>p - 0.6 * real_of_int n\<bar> < 1 / 10"
  shows "Math_round p = (6 * n + 5) div 10"
proof -
  define q where "q = (6 * n + 5) div 10"
  define r where "r = (6 * n + 5) mod 10"
  have qr: "6 * n + 5 = 10 * q + r" by (simp add: q_def r_def)
  have "odd (6 * n + 5)" by simp
  then have "odd r" unfolding r_def by presburger
  moreover have "0 \<le> r" "r < 10" by (simp_all add: r_def)
  ultimately have r: "1 \<le> r" "r \<le> 9" by presburger+
  have "real_of_int (6 * n + 5) = real_of_int (10 * q + r)" by (simp only: qr)
  then have e: "0.6 * real_of_int n + 1 / 2 = real_of_int q + real_of_int r / 10"
    by (simp add: field_simps)
  have rr: "1 \<le> real_of_int r" "real_of_int r \<le> 9"
    using r by simp_all
  have "real_of_int q \<le> p + 1 / 2" "p + 1 / 2 < real_of_int q + 1"
    using assms e rr by linarith+
  then have "\<lfloor>p + 1 / 2\<rfloor> = q" by (simp add: floor_unique)
  then show ?thesis by (simp add: Math_round_def q_def)
qed

lemma repeat_unit:
  "repeat [c] count = (if count < 0 then Inl RangeError else Inr (replicate (nat count) c))"
proof -
  have "concat (replicate n [c]) = replicate n c" for n
    by (induction n) simp_all
  then show ?thesis by (simp add: repeat_def)
qed

lemma js_rem_pos: "0 \<le> a \<Longrightarrow> js_rem a 2 = a mod 2"
  by (cases "a = 0") (simp_all add: js_rem_def)

lemma startsWith_at_not_dash:
  "startsWith line (ascii ''@'') \<Longrightarrow> \<not> startsWith line (ascii ''---'')"
  by (cases line) (auto simp: startsWith_def)

subsection \<open>The body of the centring loop\<close>

lemma centre_line_divider:
  assumes "startsWith line (ascii ''---'')" and "int (length line) < width"
  shows "centre_line width line =
    Inr (replicate (nat ((width - int (length line)) div 2)) 0x2D @ line
         @ replicate (nat ((width - int (length line)) div 2)) 0x2D
         @ replicate (nat ((width - int (length line)) mod 2)) 0x2D)"
proof -
  have d: "0 \<le> width - int (length line)" using assms(2) by simp
  then have p: "\<not> (width - int (length line)) div 2 < 0" by simp
  have r: "\<not> (width - int (length line)) mod 2 < 0" by simp
  show ?thesis
    using assms p r by (simp add: centre_line_def repeat_unit js_rem_pos [OF d] Let_def)
qed

lemma centre_line_title:
  assumes "startsWith line (ascii ''@'')"
  shows "centre_line width line =
    (if width < int (length line) then Inl RangeError
     else Inr (replicate (nat ((width - int (length line)) div 2)) 0x20 @ line))"
proof -
  have "((width - int (length line)) div 2 < 0) = (width < int (length line))" by auto
  then show ?thesis
    using assms startsWith_at_not_dash [OF assms]
    by (simp add: centre_line_def repeat_unit Let_def)
qed

lemma centre_line_other:
  assumes "\<not> (startsWith line (ascii ''---'') \<and> int (length line) < width)"
    and "\<not> startsWith line (ascii ''@'')"
  shows "centre_line width line = Inr line"
  using assms by (auto simp: centre_line_def)

lemma centre_line_padded:
  assumes "centre_line width line = Inr line'"
  shows "\<exists>n m. line' = replicate n 0x2D @ line @ replicate m 0x2D \<or> line' = replicate n 0x20 @ line"
proof (cases "startsWith line (ascii ''---'') \<and> int (length line) < width")
  case True
  then have "line' = replicate (nat ((width - int (length line)) div 2)) 0x2D @ line
         @ replicate (nat ((width - int (length line)) div 2) + nat ((width - int (length line)) mod 2)) 0x2D"
    using assms by (simp add: centre_line_divider replicate_add)
  then show ?thesis by blast
next
  case False
  show ?thesis
  proof (cases "startsWith line (ascii ''@'')")
    case True
    then have "line' = replicate (nat ((width - int (length line)) div 2)) 0x20 @ line"
      using assms by (simp add: centre_line_title split: if_splits)
    then show ?thesis by blast
  next
    case F2: False
    have "line' = replicate 0 0x20 @ line"
      using assms centre_line_other [OF False F2] by simp
    then show ?thesis by blast
  qed
qed

lemma centre_line_idem:
  assumes "centre_line width line = Inr line'"
  shows "centre_line width line' = Inr line'"
proof (cases "startsWith line (ascii ''---'') \<and> int (length line) < width")
  case True
  let ?d = "width - int (length line)"
  have eq: "line' = replicate (nat (?d div 2)) 0x2D @ line
         @ replicate (nat (?d div 2)) 0x2D @ replicate (nat (?d mod 2)) 0x2D"
    using assms True by (simp add: centre_line_divider)
  have "int (length line') = int (length line) + 2 * (?d div 2) + ?d mod 2"
    using True by (simp add: eq)
  then have len: "int (length line') = width" by simp
  obtain a rest where l: "line = a # rest" and a: "a = 0x2D"
    using True by (cases line) (auto simp: startsWith_def)
  have "hd line' = 0x2D"
    by (cases "nat (?d div 2)") (simp_all add: eq l a)
  moreover have "line' \<noteq> []" by (simp add: eq l)
  ultimately have "\<not> startsWith line' (ascii ''@'')"
    by (cases line') (auto simp: startsWith_def)
  then show ?thesis using len by (simp add: centre_line_other)
next
  case False
  show ?thesis
  proof (cases "startsWith line (ascii ''@'')")
    case True
    let ?p = "nat ((width - int (length line)) div 2)"
    have eq: "line' = replicate ?p 0x20 @ line" and ok: "\<not> width < int (length line)"
      using assms True by (simp_all add: centre_line_title split: if_splits)
    show ?thesis
    proof (cases ?p)
      case 0
      then have "line' = line" by (simp add: eq)
      then show ?thesis using assms by simp
    next
      case (Suc k)
      then have "line' = 0x20 # replicate k 0x20 @ line" by (simp add: eq)
      then have "\<not> startsWith line' (ascii ''@'')" "\<not> startsWith line' (ascii ''---'')"
        by (simp_all add: startsWith_def)
      then show ?thesis by (simp add: centre_line_other)
    qed
  next
    case F2: False
    have "line' = line" using assms centre_line_other [OF False F2] by simp
    then show ?thesis using assms by simp
  qed
qed

subsection \<open>The centring loop\<close>

lemma fold_centre_turn_Some:
  "fold (centre_turn width) is (c, Some e) = (c, Some e)"
  by (induction "is") (simp_all add: centre_turn_def)

lemma centre_fold_from:
  "fold (centre_turn width) [length xs..<length xs + length ys] (xs @ ys, None) =
     (case centre_lines width ys of (ys', r) \<Rightarrow> (xs @ ys', r))"
proof (induction ys arbitrary: xs)
  case Nil
  then show ?case by simp
next
  case (Cons y ys)
  have upt: "[length xs..<length xs + length (y # ys)] =
      length xs # [length (xs @ [y])..<length (xs @ [y]) + length ys]"
    by (simp add: upt_rec)
  show ?case
  proof (cases "centre_line width y")
    case (Inl e)
    then show ?thesis
      by (simp only: upt fold_simps) (simp add: centre_turn_def fold_centre_turn_Some)
  next
    case (Inr l)
    have "fold (centre_turn width) [length xs..<length xs + length (y # ys)] (xs @ y # ys, None)
        = fold (centre_turn width) [length (xs @ [l])..<length (xs @ [l]) + length ys] ((xs @ [l]) @ ys, None)"
      using Inr by (simp only: upt fold_simps) (simp add: centre_turn_def)
    also have "\<dots> = (case centre_lines width ys of (ys', r) \<Rightarrow> ((xs @ [l]) @ ys', r))"
      by (rule Cons.IH)
    finally show ?thesis using Inr by (simp split: prod.splits)
  qed
qed

lemma centre_pass_lines: "centre_pass width content = centre_lines width content"
  using centre_fold_from [of width "[]" content] by (simp add: centre_pass_def split: prod.splits)

lemma centre_lines_length: "length (fst (centre_lines width content)) = length content"
  by (induction content) (auto split: sum.splits prod.splits)

lemma centre_lines_nth:
  "i < length content \<Longrightarrow>
     fst (centre_lines width content) ! i = content ! i
     \<or> centre_line width (content ! i) = Inr (fst (centre_lines width content) ! i)"
proof (induction content arbitrary: i)
  case Nil
  then show ?case by simp
next
  case (Cons y ys)
  show ?case
  proof (cases "centre_line width y")
    case (Inl e)
    then show ?thesis by simp
  next
    case (Inr l)
    show ?thesis
    proof (cases i)
      case 0
      then show ?thesis using Inr by (simp split: prod.splits)
    next
      case (Suc j)
      then have "j < length ys" using Cons.prems by simp
      from Cons.IH [OF this] show ?thesis using Inr Suc by (auto split: prod.splits)
    qed
  qed
qed

lemma centre_lines_idem:
  "centre_lines width (fst (centre_lines width content)) = centre_lines width content"
proof (induction content)
  case Nil
  then show ?case by simp
next
  case (Cons y ys)
  show ?case
  proof (cases "centre_line width y")
    case (Inl e)
    then show ?thesis by simp
  next
    case (Inr l)
    obtain ys' r where rest: "centre_lines width ys = (ys', r)"
      by (cases "centre_lines width ys")
    have "centre_lines width ys' = (ys', r)" using Cons.IH rest by simp
    then show ?thesis using Inr rest centre_line_idem [OF Inr] by simp
  qed
qed

subsection \<open>winSize\<close>

lemma winSize_loop_Cons:
  "fst (winSize_loop h mw (line # rest) st) =
     fst (winSize_loop h mw rest (fst (winSize_step h mw st line)))"
  by (simp split: prod.splits)

lemma winSize_loop_append:
  "fst (winSize_loop h mw (xs @ ys) st) =
     fst (winSize_loop h mw ys (fst (winSize_loop h mw xs st)))"
proof (induction xs arbitrary: st)
  case Nil
  then show ?case by simp
next
  case (Cons x xs)
  show ?case
    by (simp only: append_Cons winSize_loop_Cons Cons.IH)
qed


lemma winSize_loop_calls:
  "snd (winSize_loop h mw xs st) = map (Call (ascii ''strdisplaywidth'')) xs"
proof (induction xs arbitrary: st)
  case Nil
  then show ?case by simp
next
  case (Cons x xs)
  have "snd (winSize_step h mw st x) = [Call (ascii ''strdisplaywidth'') x]"
    by (simp add: winSize_step_def Let_def)
  then show ?case
    using Cons.IH [of "fst (winSize_step h mw st x)"] by (auto split: prod.splits)
qed

lemma winSize_step_width_stays:
  "snd st = mw \<Longrightarrow> snd (fst (winSize_step h mw st line)) = mw"
  by (simp add: winSize_step_def Let_def)

lemma winSize_loop_width_stays:
  "snd st = mw \<Longrightarrow> snd (fst (winSize_loop h mw xs st)) = mw"
proof (induction xs arbitrary: st)
  case Nil
  then show ?case by simp
next
  case (Cons x xs)
  show ?case
    unfolding winSize_loop_Cons
    by (rule Cons.IH) (rule winSize_step_width_stays [OF Cons.prems])
qed


lemma winSize_loop_width_reached:
  assumes "snd (fst (winSize_loop h mw (before @ [line]) st)) = mw"
  shows "snd (fst (winSize_loop h mw (before @ line # after) st)) = mw"
proof -
  have "before @ line # after = (before @ [line]) @ after" by simp
  then show ?thesis
    using assms by (simp only: winSize_loop_append winSize_loop_width_stays)
qed

lemma winSize_step_width_le:
  "snd st \<le> mw \<Longrightarrow> snd (fst (winSize_step h mw st line)) \<le> mw"
  by (simp add: winSize_step_def Let_def)

lemma winSize_loop_width_le:
  "snd st \<le> mw \<Longrightarrow> snd (fst (winSize_loop h mw xs st)) \<le> mw"
proof (induction xs arbitrary: st)
  case Nil
  then show ?case by simp
next
  case (Cons x xs)
  show ?case
    unfolding winSize_loop_Cons
    by (rule Cons.IH) (rule winSize_step_width_le [OF Cons.prems])
qed

lemma winSize_width:
  "snd (fst (winSize cfg h content)) =
     snd (fst (winSize_loop h (fst (resolve_maxWidth cfg h)) content (Finite 0, 0)))"
  by (simp add: winSize_def Let_def split: prod.splits)

lemma winSize_height:
  "fst (fst (winSize cfg h content)) =
     (let height = fst (fst (winSize_loop h (fst (resolve_maxWidth cfg h)) content (Finite 0, 0)))
      in if num_gt height (fst (resolve_maxHeight cfg h))
         then Finite (fst (resolve_maxHeight cfg h)) else height)"
  by (simp add: winSize_def Let_def split: prod.splits)

lemma winSize_calls:
  "snd (winSize cfg h content) =
     snd (resolve_maxWidth cfg h) @ snd (resolve_maxHeight cfg h)
     @ map (Call (ascii ''strdisplaywidth'')) content"
  using winSize_loop_calls [of h "fst (resolve_maxWidth cfg h)" content "(Finite 0, 0)"]
  by (auto simp: winSize_def Let_def split: prod.splits)

lemma winSize_height_bounded:
  "\<exists>hh. fst (fst (winSize cfg h content)) = Finite hh \<and> hh \<le> fst (resolve_maxHeight cfg h)"
proof (cases "fst (fst (winSize_loop h (fst (resolve_maxWidth cfg h)) content (Finite 0, 0)))")
  case (Finite a)
  then show ?thesis by (simp add: winSize_height)
next
  case Infinity
  then show ?thesis by (simp add: winSize_height)
qed

subsection \<open>popup\<close>

lemma buildContent_Cons:
  "buildContent tr =
     (ascii ''@ '' @ trans_text tr @ ascii '' @'') # concat (map engine_lines (results tr))"
  by (simp add: buildContent_def)

lemma popup_content:
  "fst (snd (popup cfg h tr)) =
     fst (centre_pass (snd (fst (winSize cfg h (buildContent tr)))) (buildContent tr))"
  by (simp add: popup_def popup_lines_def buildContent_Cons Let_def split: prod.splits option.splits)

lemma popup_calls:
  "\<exists>rest. snd (snd (popup cfg h tr)) = snd (winSize cfg h (buildContent tr)) @ rest"
  by (simp add: popup_def popup_lines_def buildContent_Cons Let_def split: prod.splits option.splits)

lemma popup_lines_calls:
  "content \<noteq> [] \<Longrightarrow>
     \<exists>rest. snd (snd (popup_lines cfg h content)) = snd (winSize cfg h content) @ rest"
  by (simp add: popup_lines_def Let_def split: prod.splits option.splits)

lemma popup_lines_calls_exact:
  "content \<noteq> [] \<Longrightarrow>
     snd (snd (popup_lines cfg h content)) =
       snd (winSize cfg h content)
       @ (case centre_pass (snd (fst (winSize cfg h content))) content of
            (content', None) \<Rightarrow>
              render h (fst (fst (winSize cfg h content))) (snd (fst (winSize cfg h content))) content'
          | (content', Some e) \<Rightarrow> [])"
  by (simp add: popup_lines_def Let_def split: prod.splits option.splits)

lemma popup_outcome:
  "fst (popup cfg h tr) =
     (case snd (centre_pass (snd (fst (winSize cfg h (buildContent tr)))) (buildContent tr)) of
        Some e \<Rightarrow> Inl e | None \<Rightarrow> Inr ())"
  by (simp add: popup_def popup_lines_def buildContent_Cons Let_def split: prod.splits option.splits)

subsection \<open>echo and replace\<close>

lemma echo_step_eq:
  "echo_step (a, b, c, content) t =
     (a \<or> truthy (phonetic t), b \<or> truthy (paraphrase t), c \<or> explain t \<noteq> [],
      content @ echo_fragments a b c t)"
  by (auto simp: echo_step_def echo_fragments_def)

lemma map_upt_Suc_shift: "map f [0..<Suc n] = f 0 # map (\<lambda>i. f (Suc i)) [0..<n]"
  by (simp only: map_upt_Suc)

lemma echo_fold:
  "snd (snd (snd (fold (\<lambda>t st. echo_step st t) rs (a, b, c, content)))) =
     content @ concat (map (\<lambda>i.
        echo_fragments
          (a \<or> list_ex (\<lambda>t. truthy (phonetic t)) (take i rs))
          (b \<or> list_ex (\<lambda>t. truthy (paraphrase t)) (take i rs))
          (c \<or> list_ex (\<lambda>t. explain t \<noteq> []) (take i rs))
          (rs ! i)) [0..<length rs])"
proof (induction rs arbitrary: a b c content)
  case Nil
  then show ?case by simp
next
  case (Cons t rs)
  show ?case
    by (simp only: fold_simps echo_step_eq Cons.IH length_Cons map_upt_Suc_shift)
       (simp add: disj_assoc)
qed

text \<open>The definitions a concrete input is evaluated with.\<close>

lemma replicate_numeral_unfold: "replicate (numeral k) x = x # replicate (pred_numeral k) x"
  by (simp add: numeral_eq_Suc)

lemmas eval_simps =
  resolve_maxWidth_def resolve_maxHeight_def viewport_share_eq winSize_def winSize_step_def
  floor_quot_def buildContent_def engine_lines_def glyph_phonetic_def glyph_paraphrase_def
  glyph_explain_def popup_def popup_lines_def centre_pass_lines centre_line_def startsWith_def repeat_def
  js_rem_def render_def echo_def echo_message_def echo_content_def echo_step_def
  echo_fragments_at_def echo_fragments_def replace_def host_ascii_def engine_of_def Let_def
  replicate_numeral_unfold

section \<open>The claims\<close>

subsection \<open>C1: empty results\<close>

text \<open>
  C1 claims that for \<open>results = []\<close> the built content is exactly the title line and
  that \<open>popup\<close> then short-circuits without any host call. The first half holds. The
  second does not: the guard of \<open>popup\<close> tests for an empty \<open>content\<close>, and \<open>buildContent\<close>
  always pushes the title, so the guard never fires. At \<open>text = "a"\<close>, \<open>results = []\<close>
  \<open>popup\<close> asks for both viewport options and the display width of the title, and then
  opens the floating window.
\<close>

theorem popup_empty_results_calls_host:
  "results \<lparr>trans_text = ascii ''a'', results = []\<rparr> = []
   \<and> snd (snd (popup \<lparr>maxWidth = 0, maxHeight = 0\<rparr> (host_ascii True)
                  \<lparr>trans_text = ascii ''a'', results = []\<rparr>))
       = [Eval (ascii ''&columns''), Eval (ascii ''&lines''),
          Call (ascii ''strdisplaywidth'') (ascii ''@ a @''),
          FloatCreate (Finite 1) 9 (ascii '' @ a @'') (ascii ''translation'')]
   \<and> snd (snd (popup \<lparr>maxWidth = 0, maxHeight = 0\<rparr> (host_ascii True)
                  \<lparr>trans_text = ascii ''a'', results = []\<rparr>)) \<noteq> []"
  by (simp add: eval_simps)

text \<open>
  C1, amended: for \<open>results = []\<close> \<open>buildContent\<close> returns exactly the title line
  \<open>@ {text} @\<close>. \<open>popup\<close> short-circuits on an empty built content, and only then does it
  make no host call; \<open>buildContent\<close> never returns an empty list, so for \<open>results = []\<close>
  \<open>popup\<close> does not short-circuit. Its host calls are the viewport queries that a zero
  \<open>maxWidth\<close> or \<open>maxHeight\<close> asks for, then the display-width query for the title line,
  and then the calls of the rendering (never none) when the centring pass succeeds, and
  nothing more when it fails. The pass fails exactly when the title is longer than the
  width; otherwise it puts \<open>floor((width - length) / 2)\<close> spaces in front of the title.
\<close>

theorem popup_empty_results:
  "popup cfg h tr = popup_lines cfg h (buildContent tr)
   \<and> popup_lines cfg h [] = (Inr (), [], [])
   \<and> (snd (snd (popup_lines cfg h content)) = [] \<longrightarrow> content = [])
   \<and> buildContent tr \<noteq> []
   \<and> render h height width lines \<noteq> []
   \<and> (results tr = [] \<longrightarrow>
        buildContent tr = [ascii ''@ '' @ trans_text tr @ ascii '' @'']
        \<and> snd (snd (popup cfg h tr)) =
              snd (resolve_maxWidth cfg h) @ snd (resolve_maxHeight cfg h)
              @ Call (ascii ''strdisplaywidth'') (ascii ''@ '' @ trans_text tr @ ascii '' @'')
              # (case centre_pass (snd (fst (winSize cfg h (buildContent tr)))) (buildContent tr) of
                   (content', None) \<Rightarrow>
                     render h (fst (fst (winSize cfg h (buildContent tr))))
                       (snd (fst (winSize cfg h (buildContent tr)))) content'
                 | (content', Some e) \<Rightarrow> [])
        \<and> centre_pass (snd (fst (winSize cfg h (buildContent tr)))) (buildContent tr) =
             (if snd (fst (winSize cfg h (buildContent tr))) < int (length (buildContent tr ! 0))
              then (buildContent tr, Some RangeError)
              else ([replicate (nat ((snd (fst (winSize cfg h (buildContent tr)))
                                      - int (length (buildContent tr ! 0))) div 2)) 0x20
                     @ buildContent tr ! 0], None)))"
proof -
  have body: "popup cfg h tr = popup_lines cfg h (buildContent tr)"
    by (simp add: popup_def)
  have guard: "popup_lines cfg h [] = (Inr (), [], [])"
    by (simp add: popup_lines_def)
  have only: "content = []" if "snd (snd (popup_lines cfg h content)) = []"
  proof (rule ccontr)
    assume ne: "content \<noteq> []"
    from popup_lines_calls [OF ne, of cfg h] that
    have "snd (winSize cfg h content) = []" by auto
    then show False using ne by (simp add: winSize_calls)
  qed
  have ne: "buildContent tr \<noteq> []"
    by (simp add: buildContent_Cons)
  have shown: "render h height width lines \<noteq> []"
    by (simp add: render_def)
  have one: "buildContent tr = [ascii ''@ '' @ trans_text tr @ ascii '' @'']" if "results tr = []"
    using that by (simp add: buildContent_Cons)
  have calls: "snd (snd (popup cfg h tr)) =
              snd (resolve_maxWidth cfg h) @ snd (resolve_maxHeight cfg h)
              @ Call (ascii ''strdisplaywidth'') (ascii ''@ '' @ trans_text tr @ ascii '' @'')
              # (case centre_pass (snd (fst (winSize cfg h (buildContent tr)))) (buildContent tr) of
                   (content', None) \<Rightarrow>
                     render h (fst (fst (winSize cfg h (buildContent tr))))
                       (snd (fst (winSize cfg h (buildContent tr)))) content'
                 | (content', Some e) \<Rightarrow> [])"
    if "results tr = []"
  proof -
    have "snd (winSize cfg h (buildContent tr)) =
        snd (resolve_maxWidth cfg h) @ snd (resolve_maxHeight cfg h)
        @ [Call (ascii ''strdisplaywidth'') (ascii ''@ '' @ trans_text tr @ ascii '' @'')]"
      by (simp add: winSize_calls one [OF that])
    then show ?thesis
      using popup_lines_calls_exact [OF ne, of cfg h] by (simp add: body)
  qed
  have pass: "centre_pass w (buildContent tr) =
             (if w < int (length (buildContent tr ! 0))
              then (buildContent tr, Some RangeError)
              else ([replicate (nat ((w - int (length (buildContent tr ! 0))) div 2)) 0x20
                     @ buildContent tr ! 0], None))"
    if "results tr = []" for w
  proof -
    have "startsWith (ascii ''@ '' @ trans_text tr @ ascii '' @'') (ascii ''@'')"
      by (simp add: startsWith_def)
    then show ?thesis
      by (simp add: one [OF that] centre_pass_lines centre_line_title)
  qed
  show ?thesis using body guard only ne shown one calls pass by blast
qed

theorem popup_empty_results_witness:
  "results \<lparr>trans_text = ascii ''hi'', results = []\<rparr> = []
   \<and> buildContent \<lparr>trans_text = ascii ''hi'', results = []\<rparr> = [ascii ''@ hi @'']
   \<and> snd (snd (popup_lines \<lparr>maxWidth = 0, maxHeight = 30\<rparr> (host_ascii False) [])) = []
   \<and> snd (snd (popup \<lparr>maxWidth = 0, maxHeight = 30\<rparr> (host_ascii False)
                  \<lparr>trans_text = ascii ''hi'', results = []\<rparr>))
       = [Eval (ascii ''&columns''),
          Call (ascii ''strdisplaywidth'') (ascii ''@ hi @''),
          PauseNotification,
          PreviewInfo [ascii '' @ hi @''] (ascii ''translation''),
          Command (ascii ''redraw''),
          ResumeNotification]"
  using popup_empty_results [of "\<lparr>maxWidth = 0, maxHeight = 30\<rparr>" "host_ascii False"
      "\<lparr>trans_text = ascii ''hi'', results = []\<rparr>" "[]" "Finite 1" 8 "[ascii '' @ hi @'']"]
  by (simp add: eval_simps)

subsection \<open>C2: the running width and height of winSize\<close>



subsection \<open>C3: the centring pass, line by line\<close>

text \<open>
  C3 says that the centring pass pads a divider line shorter than the width on both sides,
  pads a title line shorter than the width on the left, and leaves every other line
  unchanged. A title line longer than the width is such an other line, and the pass does
  not leave it unchanged: the divider branch tests \<open>width > line.length\<close>, the title
  branch does not, so the padding is negative and \<open>repeat\<close> throws. With a \<open>maxWidth\<close> of
  10 and the text \<open>hello world!\<close> the title has 16 code units and the width is 10.
\<close>

theorem centre_title_longer_than_width:
  "centre_pass 10 [ascii ''@ hello world! @'', ascii '' '']
     = ([ascii ''@ hello world! @'', ascii '' ''], Some RangeError)
   \<and> popup \<lparr>maxWidth = 10, maxHeight = 0\<rparr> (host_ascii True)
        \<lparr>trans_text = ascii ''hello world!'', results = []\<rparr>
     = (Inl RangeError, [ascii ''@ hello world! @''],
        [Eval (ascii ''&lines''), Call (ascii ''strdisplaywidth'') (ascii ''@ hello world! @'')])"
  by (simp add: eval_simps)

subsection \<open>C4: the message of echo\<close>

text \<open>
  C4 claims that the fragments of \<open>echo\<close> stand in the order phonetic, paraphrase,
  explain, and that the engines \<open>[{paraphrase: "A"}, {paraphrase: "B", phonetic: "/b/"}]\<close>
  give \<open>"<text> ==> /b/ A"\<close>. The loop pushes a fragment when it meets it, engine after
  engine, and wraps the phonetic value in brackets: the message is \<open>"x ==> A [/b/]"\<close>
  for the text \<open>x\<close>.
\<close>

theorem echo_example_message:
  "echo_message \<lparr>trans_text = ascii ''x'',
       results = [engine_of ''e1'' None (Some (ascii ''A'')) [],
                  engine_of ''e2'' (Some (ascii ''/b/'')) (Some (ascii ''B'')) []]\<rparr>
     = ascii ''x ==> A [/b/]''
   \<and> echo_message \<lparr>trans_text = ascii ''x'',
       results = [engine_of ''e1'' None (Some (ascii ''A'')) [],
                  engine_of ''e2'' (Some (ascii ''/b/'')) (Some (ascii ''B'')) []]\<rparr>
     \<noteq> ascii ''x ==> /b/ A''"
  by (simp add: eval_simps)

text \<open>
  C4, amended: for each of the three fields the fragment comes from the first engine, in
  the order of \<open>results\<close>, that has a non-empty value for it, and later engines' values
  for that field are ignored; the phonetic fragment is the value in square brackets, the
  explain fragment the entries joined with \<open>"; "\<close>. The fragments stand in the order in
  which the scan meets them: engine by engine, and within one engine phonetic, then
  paraphrase, then explain. They are joined with single spaces after the prefix
  \<open>{text} ==> \<close>, and the message is shown.
\<close>

theorem echo_fragments_in_scan_order:
  "echo_message tr =
     trans_text tr @ ascii '' ==> ''
     @ join (ascii '' '') (concat (map (echo_fragments_at (results tr)) [0..<length (results tr)]))
   \<and> echo tr = [ShowMessage (echo_message tr)]"
proof -
  have "echo_content (results tr)
      = concat (map (echo_fragments_at (results tr)) [0..<length (results tr)])"
    unfolding echo_content_def echo_fold
    by (simp add: echo_fragments_at_def [abs_def])
  then show ?thesis by (simp add: echo_message_def echo_def)
qed

theorem echo_fragments_in_scan_order_witness:
  "concat (map (echo_fragments_at
       [engine_of ''e1'' None (Some (ascii ''A'')) [],
        engine_of ''e2'' (Some (ascii ''/b/'')) (Some (ascii ''B'')) [ascii ''u'', ascii ''v''],
        engine_of ''e3'' (Some (ascii ''/c/'')) None [ascii ''w'']]) [0, 1, 2])
     = [ascii ''A'', ascii ''[/b/]'', ascii ''u; v'']
   \<and> echo_message \<lparr>trans_text = ascii ''x'',
       results = [engine_of ''e1'' None (Some (ascii ''A'')) [],
                  engine_of ''e2'' (Some (ascii ''/b/'')) (Some (ascii ''B'')) [ascii ''u'', ascii ''v''],
                  engine_of ''e3'' (Some (ascii ''/c/'')) None [ascii ''w'']]\<rparr>
     = ascii ''x ==> A [/b/] u; v''"
  using echo_fragments_in_scan_order [of "\<lparr>trans_text = ascii ''x'',
       results = [engine_of ''e1'' None (Some (ascii ''A'')) [],
                  engine_of ''e2'' (Some (ascii ''/b/'')) (Some (ascii ''B'')) [ascii ''u'', ascii ''v''],
                  engine_of ''e3'' (Some (ascii ''/c/'')) None [ascii ''w'']]\<rparr>"]
  by (simp add: eval_simps)

subsection \<open>C5: replace\<close>

text \<open>
  C5: \<open>replace\<close> goes through the engines in order. At the first one with a non-empty
  paraphrase it issues, inside one pause/resume batch and in this order, the four
  commands that save register \<open>a\<close>, set it to the paraphrase, paste it over the word
  under the cursor and restore the register, and returns without looking at a later
  engine. When no engine has a non-empty paraphrase it issues no command and only shows
  the message \<open>No paraphrase for replacement\<close>.
\<close>

theorem replace_first_paraphrase:
  "replace tr =
     (case List.find (\<lambda>t. truthy (paraphrase t)) (results tr) of
        None \<Rightarrow> [ShowMessage (ascii ''No paraphrase for replacement'')]
      | Some t \<Rightarrow>
          [PauseNotification,
           Command (ascii ''let reg_tmp=@a''),
           Command (ascii ''let @a='' @ [0x27] @ the (paraphrase t) @ [0x27]),
           Command (ascii ''normal! viw\"ap''),
           Command (ascii ''let @a=reg_tmp''),
           ResumeNotification])"
proof -
  have "replace_loop rs =
     (case List.find (\<lambda>t. truthy (paraphrase t)) rs of
        None \<Rightarrow> [ShowMessage (ascii ''No paraphrase for replacement'')]
      | Some t \<Rightarrow>
          [PauseNotification,
           Command (ascii ''let reg_tmp=@a''),
           Command (ascii ''let @a='' @ [0x27] @ the (paraphrase t) @ [0x27]),
           Command (ascii ''normal! viw\"ap''),
           Command (ascii ''let @a=reg_tmp''),
           ResumeNotification])" for rs
    by (induction rs) simp_all
  then show ?thesis by (simp add: replace_def)
qed

theorem replace_first_paraphrase_witness:
  "replace \<lparr>trans_text = ascii ''x'',
       results = [engine_of ''e1'' None None [],
                  engine_of ''e2'' None (Some (ascii ''hello'')) [],
                  engine_of ''e3'' None (Some (ascii ''bye'')) []]\<rparr>
     = [PauseNotification,
        Command (ascii ''let reg_tmp=@a''),
        Command (ascii ''let @a='' @ [0x27] @ ascii ''hello'' @ [0x27]),
        Command (ascii ''normal! viw\"ap''),
        Command (ascii ''let @a=reg_tmp''),
        ResumeNotification]
   \<and> replace \<lparr>trans_text = ascii ''x'',
       results = [engine_of ''e1'' None None [], engine_of ''e2'' None (Some []) []]\<rparr>
     = [ShowMessage (ascii ''No paraphrase for replacement'')]"
  using replace_first_paraphrase [of "\<lparr>trans_text = ascii ''x'',
       results = [engine_of ''e1'' None None [],
                  engine_of ''e2'' None (Some (ascii ''hello'')) [],
                  engine_of ''e3'' None (Some (ascii ''bye'')) []]\<rparr>"]
    replace_first_paraphrase [of "\<lparr>trans_text = ascii ''x'',
       results = [engine_of ''e1'' None None [], engine_of ''e2'' None (Some []) []]\<rparr>"]
  by (simp add: eval_simps)

subsection \<open>C6: the height is clamped, the lines are not\<close>

text \<open>
  C6: the height \<open>winSize\<close> returns is a finite number that never exceeds the resolved
  \<open>maxHeight\<close>, and the \<open>content\<close> array has as many lines when \<open>popup\<close> ends (also when
  it ends with an error) as \<open>buildContent\<close> gave it: it is never cut to the height.
\<close>

theorem height_clamped_lines_kept:
  "(\<exists>hh. fst (fst (winSize cfg h content)) = Finite hh \<and> hh \<le> fst (resolve_maxHeight cfg h))
   \<and> length (fst (snd (popup cfg h tr))) = length (buildContent tr)"
  using winSize_height_bounded [of cfg h content]
  by (simp add: popup_content centre_pass_lines centre_lines_length)

theorem height_clamped_lines_kept_witness:
  "fst (resolve_maxHeight \<lparr>maxWidth = 40, maxHeight = 2\<rparr> (host_ascii True)) = 2
   \<and> fst (fst (winSize \<lparr>maxWidth = 40, maxHeight = 2\<rparr> (host_ascii True)
        (buildContent \<lparr>trans_text = ascii ''hi'',
            results = [engine_of ''g'' None (Some (ascii ''hello'')) []]\<rparr>))) = Finite 2
   \<and> length (buildContent \<lparr>trans_text = ascii ''hi'',
        results = [engine_of ''g'' None (Some (ascii ''hello'')) []]\<rparr>) = 4
   \<and> length (fst (snd (popup \<lparr>maxWidth = 40, maxHeight = 2\<rparr> (host_ascii True)
        \<lparr>trans_text = ascii ''hi'',
         results = [engine_of ''g'' None (Some (ascii ''hello'')) []]\<rparr>))) = 4"
  using height_clamped_lines_kept [of "\<lparr>maxWidth = 40, maxHeight = 2\<rparr>" "host_ascii True"
      "buildContent \<lparr>trans_text = ascii ''hi'',
         results = [engine_of ''g'' None (Some (ascii ''hello'')) []]\<rparr>"
      "\<lparr>trans_text = ascii ''hi'',
        results = [engine_of ''g'' None (Some (ascii ''hello'')) []]\<rparr>"]
  by (simp add: eval_simps)

subsection \<open>C7: sizes taken from the viewport\<close>

text \<open>
  C7: with a configured \<open>maxWidth\<close> of 0, \<open>winSize\<close> asks the host for \<open>&columns\<close> first and
  runs its loop with \<open>round(0.6 * columns)\<close> as \<open>maxWidth\<close>; with a configured \<open>maxHeight\<close>
  of 0 it asks for \<open>&lines\<close> and clamps the height to \<open>round(0.6 * lines)\<close> (viewport sizes
  from 0 to 1000000, where the rounding of the model is that of the code). With
  \<open>maxWidth = 0\<close> and 100 columns the resolved \<open>maxWidth\<close> is 60, and a line of display
  width 58, wherever it stands in the content, takes the branch of the fitting lines: it
  adds 1 to the height and the width is 60 after it. The width \<open>winSize\<close> returns for a
  content with such a line is 60, and for that line alone \<open>winSize\<close> returns the height 1
  (clamped to the resolved \<open>maxHeight\<close>) and the width 60.
\<close>

theorem winSize_viewport_sentinel:
  "(maxWidth cfg = 0 \<and> 0 \<le> eval_columns h \<and> eval_columns h \<le> 1000000 \<longrightarrow>
      fst (resolve_maxWidth cfg h) = round (0.6 * real_of_int (eval_columns h))
      \<and> snd (winSize cfg h content) =
           Eval (ascii ''&columns'') # snd (resolve_maxHeight cfg h)
           @ map (Call (ascii ''strdisplaywidth'')) content
      \<and> snd (fst (winSize cfg h content)) =
           snd (fst (winSize_loop h (round (0.6 * real_of_int (eval_columns h))) content (Finite 0, 0))))
   \<and> (maxHeight cfg = 0 \<and> 0 \<le> eval_lines h \<and> eval_lines h \<le> 1000000
       \<and> 0 \<le> eval_columns h \<and> eval_columns h \<le> 1000000 \<longrightarrow>
      fst (resolve_maxHeight cfg h) = round (0.6 * real_of_int (eval_lines h))
      \<and> snd (winSize cfg h content) =
           snd (resolve_maxWidth cfg h) @ Eval (ascii ''&lines'')
           # map (Call (ascii ''strdisplaywidth'')) content
      \<and> fst (fst (winSize cfg h content)) =
           (let height = fst (fst (winSize_loop h (fst (resolve_maxWidth cfg h)) content (Finite 0, 0)))
            in if num_gt height (round (0.6 * real_of_int (eval_lines h)))
               then Finite (round (0.6 * real_of_int (eval_lines h))) else height))
   \<and> (maxWidth cfg = 0 \<and> eval_columns h = 100 \<and> strdisplaywidth h line = 58
       \<and> 0 \<le> eval_lines h \<and> eval_lines h \<le> 1000000 \<longrightarrow>
        fst (resolve_maxWidth cfg h) = 60
        \<and> (let st = fst (winSize_loop h (fst (resolve_maxWidth cfg h)) before (Finite 0, 0))
           in fst (winSize_step h (fst (resolve_maxWidth cfg h)) st line)
                = (num_add (fst st) (Finite 1), 60)
              \<and> fst (winSize_loop h (fst (resolve_maxWidth cfg h)) (before @ [line]) (Finite 0, 0))
                = (num_add (fst st) (Finite 1), 60))
        \<and> snd (fst (winSize cfg h (before @ line # after))) = 60
        \<and> fst (winSize cfg h [line]) =
            (if 1 > fst (resolve_maxHeight cfg h) then Finite (fst (resolve_maxHeight cfg h))
             else Finite 1, 60))"
proof -
  have a: "fst (resolve_maxWidth cfg h) = round (0.6 * real_of_int (eval_columns h))"
    and a': "snd (resolve_maxWidth cfg h) = [Eval (ascii ''&columns'')]"
    if "maxWidth cfg = 0"
  proof -
    have "fst (resolve_maxWidth cfg h) = viewport_share (eval_columns h)"
      using that by (simp add: resolve_maxWidth_def)
    then show "fst (resolve_maxWidth cfg h) = round (0.6 * real_of_int (eval_columns h))"
      by (simp only: viewport_share_round)
    show "snd (resolve_maxWidth cfg h) = [Eval (ascii ''&columns'')]"
      using that by (simp add: resolve_maxWidth_def)
  qed
  have b: "fst (resolve_maxHeight cfg h) = round (0.6 * real_of_int (eval_lines h))"
    and b': "snd (resolve_maxHeight cfg h) = [Eval (ascii ''&lines'')]"
    if "maxHeight cfg = 0"
  proof -
    have "fst (resolve_maxHeight cfg h) = viewport_share (eval_lines h)"
      using that by (simp add: resolve_maxHeight_def)
    then show "fst (resolve_maxHeight cfg h) = round (0.6 * real_of_int (eval_lines h))"
      by (simp only: viewport_share_round)
    show "snd (resolve_maxHeight cfg h) = [Eval (ascii ''&lines'')]"
      using that by (simp add: resolve_maxHeight_def)
  qed
  have w: "snd (fst (winSize cfg h content)) =
           snd (fst (winSize_loop h (round (0.6 * real_of_int (eval_columns h))) content (Finite 0, 0)))"
    if "maxWidth cfg = 0"
    by (simp only: winSize_width a [OF that])
  have wc: "snd (winSize cfg h content) =
           Eval (ascii ''&columns'') # snd (resolve_maxHeight cfg h)
           @ map (Call (ascii ''strdisplaywidth'')) content"
    if "maxWidth cfg = 0"
    by (simp add: winSize_calls a' [OF that])
  have hc: "snd (winSize cfg h content) =
           snd (resolve_maxWidth cfg h) @ Eval (ascii ''&lines'')
           # map (Call (ascii ''strdisplaywidth'')) content"
    if "maxHeight cfg = 0"
    by (simp add: winSize_calls b' [OF that])
  have hh: "fst (fst (winSize cfg h content)) =
           (let height = fst (fst (winSize_loop h (fst (resolve_maxWidth cfg h)) content (Finite 0, 0)))
            in if num_gt height (round (0.6 * real_of_int (eval_lines h)))
               then Finite (round (0.6 * real_of_int (eval_lines h))) else height)"
    if "maxHeight cfg = 0"
    by (simp only: winSize_height b [OF that])
  have c: "fst (resolve_maxWidth cfg h) = 60"
    if "maxWidth cfg = 0" "eval_columns h = 100"
    using that by (simp add: resolve_maxWidth_def viewport_share_eq)
  have d: "fst (winSize_step h 60 (fst (winSize_loop h 60 before (Finite 0, 0))) line)
      = (num_add (fst (fst (winSize_loop h 60 before (Finite 0, 0)))) (Finite 1), 60)"
    if "strdisplaywidth h line = 58" for before
  proof -
    have "snd (fst (winSize_loop h 60 before (Finite 0, 0))) \<le> 60"
      by (rule winSize_loop_width_le) simp
    then show ?thesis using that by (simp add: winSize_step_def Let_def)
  qed
  have e: "fst (winSize_loop h 60 (before @ [line]) (Finite 0, 0))
      = (num_add (fst (fst (winSize_loop h 60 before (Finite 0, 0)))) (Finite 1), 60)"
    if "strdisplaywidth h line = 58" for before
    using d [OF that, of before] by (simp add: winSize_loop_append split: prod.splits)
  have f: "snd (fst (winSize cfg h (before @ line # after))) = 60"
    if "maxWidth cfg = 0" "eval_columns h = 100" "strdisplaywidth h line = 58"
  proof -
    have "snd (fst (winSize_loop h 60 (before @ [line]) (Finite 0, 0))) = 60"
      by (simp add: e [OF that(3)])
    then have "snd (fst (winSize_loop h 60 (before @ line # after) (Finite 0, 0))) = 60"
      by (rule winSize_loop_width_reached)
    then show ?thesis by (simp add: winSize_width c [OF that(1,2)])
  qed
  have g: "fst (winSize cfg h [line]) =
            (if 1 > fst (resolve_maxHeight cfg h) then Finite (fst (resolve_maxHeight cfg h))
             else Finite 1, 60)"
    if "maxWidth cfg = 0" "eval_columns h = 100" "strdisplaywidth h line = 58"
  proof -
    have "fst (winSize_loop h 60 [line] (Finite 0, 0)) = (Finite 1, 60)"
      using e [OF that(3), of "[]"] by simp
    then have "fst (fst (winSize cfg h [line])) =
        (if 1 > fst (resolve_maxHeight cfg h) then Finite (fst (resolve_maxHeight cfg h)) else Finite 1)"
      and "snd (fst (winSize cfg h [line])) = 60"
      by (simp_all add: winSize_height winSize_width c [OF that(1,2)])
    then show ?thesis by (simp add: prod_eq_iff)
  qed
  show ?thesis
    using a w wc b hc hh c d e f g by (simp add: Let_def)
qed

theorem winSize_viewport_sentinel_witness:
  "maxWidth \<lparr>maxWidth = 0, maxHeight = 0\<rparr> = 0
   \<and> maxHeight \<lparr>maxWidth = 0, maxHeight = 0\<rparr> = 0
   \<and> eval_columns (host_ascii True) = 100
   \<and> eval_lines (host_ascii True) = 40
   \<and> strdisplaywidth (host_ascii True) (replicate 58 0x61) = 58
   \<and> fst (resolve_maxWidth \<lparr>maxWidth = 0, maxHeight = 0\<rparr> (host_ascii True)) = 60
   \<and> fst (resolve_maxHeight \<lparr>maxWidth = 0, maxHeight = 0\<rparr> (host_ascii True)) = 24
   \<and> winSize \<lparr>maxWidth = 0, maxHeight = 0\<rparr> (host_ascii True)
        [ascii ''abc'', replicate 58 0x61, ascii ''ab'']
      = ((Finite 3, 60),
         [Eval (ascii ''&columns''), Eval (ascii ''&lines''),
          Call (ascii ''strdisplaywidth'') (ascii ''abc''),
          Call (ascii ''strdisplaywidth'') (replicate 58 0x61),
          Call (ascii ''strdisplaywidth'') (ascii ''ab'')])
   \<and> fst (winSize \<lparr>maxWidth = 0, maxHeight = 0\<rparr> (host_ascii True) [replicate 58 0x61])
      = (Finite 1, 60)"
  using winSize_viewport_sentinel [of "\<lparr>maxWidth = 0, maxHeight = 0\<rparr>" "host_ascii True"
      "[ascii ''abc'', replicate 58 0x61, ascii ''ab'']" "replicate 58 0x61"
      "[ascii ''abc'']" "[ascii ''ab'']"]
  by (simp add: eval_simps)

subsection \<open>C8: centring keeps the lines and their order\<close>

text \<open>
  C8: the centring pass keeps the number and the order of the lines. Line \<open>i\<close> of the
  array after the pass is line \<open>i\<close> before it with filler characters added: hyphens in
  front and behind, or spaces in front (no filler at all for a line the pass does not
  touch). This holds for every content and width, so for the content \<open>buildContent\<close>
  produces and the width \<open>winSize\<close> computes, which are what \<open>popup\<close> runs the pass on.
\<close>

theorem centring_keeps_lines:
  "length (fst (centre_pass width content)) = length content
   \<and> (\<forall>i<length content. \<exists>n m.
         fst (centre_pass width content) ! i = replicate n 0x2D @ content ! i @ replicate m 0x2D
         \<or> fst (centre_pass width content) ! i = replicate n 0x20 @ content ! i)
   \<and> fst (snd (popup cfg h tr)) =
       fst (centre_pass (snd (fst (winSize cfg h (buildContent tr)))) (buildContent tr))"
proof -
  have pad: "\<exists>n m.
         fst (centre_lines width content) ! i = replicate n 0x2D @ content ! i @ replicate m 0x2D
         \<or> fst (centre_lines width content) ! i = replicate n 0x20 @ content ! i"
    if "i < length content" for i
    using centre_lines_nth [OF that, of width]
  proof
    assume "fst (centre_lines width content) ! i = content ! i"
    then have "fst (centre_lines width content) ! i = replicate 0 0x20 @ content ! i"
      by simp
    then show ?thesis by blast
  next
    assume "centre_line width (content ! i) = Inr (fst (centre_lines width content) ! i)"
    then show ?thesis by (rule centre_line_padded)
  qed
  show ?thesis
    using pad by (simp add: centre_pass_lines centre_lines_length popup_content)
qed

theorem centring_keeps_lines_witness:
  "(2::nat) < length (buildContent \<lparr>trans_text = ascii ''hi'',
        results = [engine_of ''g'' None (Some (ascii ''hello'')) []]\<rparr>)
   \<and> fst (centre_pass 20 (buildContent \<lparr>trans_text = ascii ''hi'',
        results = [engine_of ''g'' None (Some (ascii ''hello'')) []]\<rparr>))
      = [ascii ''       @ hi @'',
         ascii '' '',
         ascii ''-------- g ---------'',
         glyph_paraphrase @ ascii '' hello'']"
  using centring_keeps_lines [of 20 "buildContent \<lparr>trans_text = ascii ''hi'',
        results = [engine_of ''g'' None (Some (ascii ''hello'')) []]\<rparr>"]
  by (simp add: eval_simps)

subsection \<open>C9: centring twice\<close>

text \<open>
  C9: the centring step leaves a divider line whose length is already the width as it
  is, and running the whole centring pass a second time with the same width, on the
  lines the first pass left, gives the same lines (and the same outcome) again.
\<close>

theorem centring_idempotent:
  "(startsWith line (ascii ''---'') \<and> int (length line) = width \<longrightarrow> centre_line width line = Inr line)
   \<and> centre_pass width (fst (centre_pass width content)) = centre_pass width content"
proof -
  have "centre_line width line = Inr line"
    if "startsWith line (ascii ''---'')" "int (length line) = width"
  proof -
    have "\<not> startsWith line (ascii ''@'')"
      using that(1) startsWith_at_not_dash by blast
    then show ?thesis using that(2) by (simp add: centre_line_other)
  qed
  then show ?thesis by (simp add: centre_pass_lines centre_lines_idem)
qed

theorem centring_idempotent_witness:
  "startsWith (ascii ''------ g ------'') (ascii ''---'')
   \<and> int (length (ascii ''------ g ------'')) = 15
   \<and> centre_line 15 (ascii ''------ g ------'') = Inr (ascii ''------ g ------'')
   \<and> centre_pass 20 [ascii ''@ hi @'', ascii ''------ g ------'']
      = ([ascii ''       @ hi @'', ascii ''-------- g ---------''], None)
   \<and> centre_pass 20 [ascii ''       @ hi @'', ascii ''-------- g ---------'']
      = ([ascii ''       @ hi @'', ascii ''-------- g ---------''], None)"
  using centring_idempotent [of "ascii ''------ g ------''" 15]
    centring_idempotent [of "[]" 20 "[ascii ''@ hi @'', ascii ''------ g ------'']"]
  by (simp add: eval_simps)

subsection \<open>C10: a title longer than the width\<close>

text \<open>
  C10: the title branch of the centring loop has no test that the line is shorter than
  the width. For every line starting with \<open>@\<close> it computes
  \<open>padding = floor((width - line.length) / 2)\<close> and repeats a space that many times; when
  the line is longer than the width the count is negative and \<open>repeat\<close> throws. So whenever
  the title line \<open>@ {text} @\<close> is longer than the width \<open>winSize\<close> computes, \<open>popup\<close>
  rejects with a \<open>RangeError\<close> instead of leaving the line as it is.
\<close>

theorem popup_title_RangeError:
  "(startsWith line (ascii ''@'') \<longrightarrow>
      centre_line width line =
        (case repeat (ascii '' '') ((width - int (length line)) div 2) of
           Inl e \<Rightarrow> Inl e | Inr left \<Rightarrow> Inr (left @ line)))
   \<and> (startsWith line (ascii ''@'') \<and> width < int (length line) \<longrightarrow>
        (width - int (length line)) div 2 < 0 \<and> centre_line width line = Inl RangeError)
   \<and> (snd (fst (winSize cfg h (buildContent tr)))
         < int (length (ascii ''@ '' @ trans_text tr @ ascii '' @'')) \<longrightarrow>
        fst (popup cfg h tr) = Inl RangeError)"
proof -
  have a: "centre_line width line =
        (case repeat (ascii '' '') ((width - int (length line)) div 2) of
           Inl e \<Rightarrow> Inl e | Inr left \<Rightarrow> Inr (left @ line))"
    if "startsWith line (ascii ''@'')"
    using that startsWith_at_not_dash [OF that] by (simp add: centre_line_def Let_def)
  have b: "(width - int (length line)) div 2 < 0 \<and> centre_line width line = Inl RangeError"
    if "startsWith line (ascii ''@'')" "width < int (length line)"
    using that by (simp add: centre_line_title)
  have c: "fst (popup cfg h tr) = Inl RangeError"
    if "snd (fst (winSize cfg h (buildContent tr)))
          < int (length (ascii ''@ '' @ trans_text tr @ ascii '' @''))"
  proof -
    have "startsWith (ascii ''@ '' @ trans_text tr @ ascii '' @'') (ascii ''@'')"
      by (simp add: startsWith_def)
    then have "centre_line (snd (fst (winSize cfg h (buildContent tr))))
          (ascii ''@ '' @ trans_text tr @ ascii '' @'') = Inl RangeError"
      using that by (simp only: centre_line_title if_True)
    then have "snd (centre_pass (snd (fst (winSize cfg h (buildContent tr)))) (buildContent tr))
          = Some RangeError"
      by (simp add: centre_pass_lines buildContent_Cons [of tr])
    then show ?thesis by (simp add: popup_outcome)
  qed
  show ?thesis using a b c by blast
qed

theorem popup_title_RangeError_witness:
  "startsWith (ascii ''@ a long sentence @'') (ascii ''@'')
   \<and> (12::int) < int (length (ascii ''@ a long sentence @''))
   \<and> centre_line 12 (ascii ''@ a long sentence @'') = Inl RangeError
   \<and> snd (fst (winSize \<lparr>maxWidth = 12, maxHeight = 0\<rparr> (host_ascii False)
        (buildContent \<lparr>trans_text = ascii ''a long sentence'',
           results = [engine_of ''g'' None (Some (ascii ''hello'')) []]\<rparr>))) = 12
   \<and> fst (popup \<lparr>maxWidth = 12, maxHeight = 0\<rparr> (host_ascii False)
        \<lparr>trans_text = ascii ''a long sentence'',
         results = [engine_of ''g'' None (Some (ascii ''hello'')) []]\<rparr>) = Inl RangeError"
  using popup_title_RangeError [of "ascii ''@ a long sentence @''" 12
      "\<lparr>maxWidth = 12, maxHeight = 0\<rparr>" "host_ascii False"
      "\<lparr>trans_text = ascii ''a long sentence'',
        results = [engine_of ''g'' None (Some (ascii ''hello'')) []]\<rparr>"]
  by (simp add: eval_simps)

end
